theory Spec2Isabelle
  imports Complex_Main
begin

section \<open>JavaScript values\<close>

text \<open>
  The store is a JavaScript class. A JavaScript number is an IEEE double: a finite
  number, one of the two infinities, or NaN. Here a finite number is a real and the
  arithmetic on finite numbers is exact (no rounding, no overflow); the infinities and
  NaN are values of their own and follow the IEEE rules. \<open>Obj\<close> stands for any object
  or function reference, \<open>Undefined\<close> for the value of a property that does not exist.
\<close>

datatype js_value = Num real | Infinity | NegInfinity | NaN | Undefined | Obj

text \<open>
  \<open>ToNumber\<close>, as the arithmetic operators apply it: a function and the prototype
  object convert to NaN, and so does \<open>undefined\<close>.
\<close>

fun ToNumber :: "js_value \<Rightarrow> js_value" where
  "ToNumber Undefined = NaN"
| "ToNumber Obj = NaN"
| "ToNumber v = v"

fun ToBoolean :: "js_value \<Rightarrow> bool" where
  "ToBoolean (Num x) = (x \<noteq> 0)"
| "ToBoolean Infinity = True"
| "ToBoolean NegInfinity = True"
| "ToBoolean NaN = False"
| "ToBoolean Undefined = False"
| "ToBoolean Obj = True"

text \<open>\<open>a || b\<close>\<close>

definition js_or :: "js_value \<Rightarrow> js_value \<Rightarrow> js_value" where
  "js_or a b = (if ToBoolean a then a else b)"

text \<open>
  The arithmetic operators on numbers; every case not listed has a NaN operand or is
  one of the undefined forms (infinity times zero, infinity minus infinity) and gives
  NaN. (In the source \<open>+\<close> and \<open>-\<close> only ever receive the results of \<open>*\<close>, \<open>/\<close>,
  \<open>Math.exp\<close> and \<open>Math.log\<close>, so string concatenation does not arise.)
\<close>

fun number_times :: "js_value \<Rightarrow> js_value \<Rightarrow> js_value" where
  "number_times (Num x) (Num y) = Num (x * y)"
| "number_times (Num x) Infinity =
     (if 0 < x then Infinity else if x < 0 then NegInfinity else NaN)"
| "number_times (Num x) NegInfinity =
     (if 0 < x then NegInfinity else if x < 0 then Infinity else NaN)"
| "number_times Infinity (Num y) =
     (if 0 < y then Infinity else if y < 0 then NegInfinity else NaN)"
| "number_times NegInfinity (Num y) =
     (if 0 < y then NegInfinity else if y < 0 then Infinity else NaN)"
| "number_times Infinity Infinity = Infinity"
| "number_times Infinity NegInfinity = NegInfinity"
| "number_times NegInfinity Infinity = NegInfinity"
| "number_times NegInfinity NegInfinity = Infinity"
| "number_times _ _ = NaN"

fun number_plus :: "js_value \<Rightarrow> js_value \<Rightarrow> js_value" where
  "number_plus (Num x) (Num y) = Num (x + y)"
| "number_plus (Num x) Infinity = Infinity"
| "number_plus (Num x) NegInfinity = NegInfinity"
| "number_plus Infinity (Num y) = Infinity"
| "number_plus NegInfinity (Num y) = NegInfinity"
| "number_plus Infinity Infinity = Infinity"
| "number_plus NegInfinity NegInfinity = NegInfinity"
| "number_plus _ _ = NaN"

fun number_minus :: "js_value \<Rightarrow> js_value \<Rightarrow> js_value" where
  "number_minus (Num x) (Num y) = Num (x - y)"
| "number_minus (Num x) Infinity = NegInfinity"
| "number_minus (Num x) NegInfinity = Infinity"
| "number_minus Infinity (Num y) = Infinity"
| "number_minus NegInfinity (Num y) = NegInfinity"
| "number_minus Infinity NegInfinity = Infinity"
| "number_minus NegInfinity Infinity = NegInfinity"
| "number_minus _ _ = NaN"

definition js_times :: "js_value \<Rightarrow> js_value \<Rightarrow> js_value" where
  "js_times a b = number_times (ToNumber a) (ToNumber b)"

definition js_plus :: "js_value \<Rightarrow> js_value \<Rightarrow> js_value" where
  "js_plus a b = number_plus (ToNumber a) (ToNumber b)"

definition js_minus :: "js_value \<Rightarrow> js_value \<Rightarrow> js_value" where
  "js_minus a b = number_minus (ToNumber a) (ToNumber b)"

text \<open>\<open>a <= b\<close> and \<open>a < b\<close> on numbers: false as soon as one side is NaN.\<close>

fun number_le :: "js_value \<Rightarrow> js_value \<Rightarrow> bool" where
  "number_le (Num x) (Num y) = (x \<le> y)"
| "number_le (Num x) Infinity = True"
| "number_le NegInfinity (Num y) = True"
| "number_le NegInfinity NegInfinity = True"
| "number_le NegInfinity Infinity = True"
| "number_le Infinity Infinity = True"
| "number_le _ _ = False"

fun number_lt :: "js_value \<Rightarrow> js_value \<Rightarrow> bool" where
  "number_lt (Num x) (Num y) = (x < y)"
| "number_lt (Num x) Infinity = True"
| "number_lt NegInfinity (Num y) = True"
| "number_lt NegInfinity Infinity = True"
| "number_lt _ _ = False"

definition js_le :: "js_value \<Rightarrow> js_value \<Rightarrow> bool" where
  "js_le a b = number_le (ToNumber a) (ToNumber b)"

definition js_lt :: "js_value \<Rightarrow> js_value \<Rightarrow> bool" where
  "js_lt a b = number_lt (ToNumber a) (ToNumber b)"

text \<open>
  Property lookup \<open>obj[key]\<close> on an object literal whose own properties are numbers:
  an own property first, then the properties every object literal inherits from
  \<open>Object.prototype\<close> (functions, and the prototype object itself for \<open>__proto__\<close>),
  otherwise \<open>undefined\<close>.
\<close>

definition Object_prototype_names :: "string list" where
  "Object_prototype_names =
     [''constructor'', ''__defineGetter__'', ''__defineSetter__'', ''hasOwnProperty'',
      ''__lookupGetter__'', ''__lookupSetter__'', ''isPrototypeOf'',
      ''propertyIsEnumerable'', ''toString'', ''valueOf'', ''__proto__'',
      ''toLocaleString'']"

definition get_property :: "(string \<times> real) list \<Rightarrow> string \<Rightarrow> js_value" where
  "get_property obj key =
     (case map_of obj key of
        Some v \<Rightarrow> Num v
      | None \<Rightarrow> if key \<in> set Object_prototype_names then Obj else Undefined)"

text \<open>
  Decimal rendering of an integer, as a template literal \<open>${n}\<close> renders it.
  \<open>digit_char\<close> is only applied to numbers below ten.
\<close>

definition digit_char :: "nat \<Rightarrow> char" where
  "digit_char d = ''0123456789'' ! d"

function show_nat :: "nat \<Rightarrow> string" where
  "show_nat n = (if n < 10 then [digit_char n] else show_nat (n div 10) @ [digit_char (n mod 10)])"
  by pat_completeness auto
termination
  by (relation "measure (\<lambda>n. n)") auto

declare show_nat.simps [simp del]

definition show_int :: "int \<Rightarrow> string" where
  "show_int i = (if i < 0 then ''-'' @ show_nat (nat (- i)) else show_nat (nat i))"

section \<open>The entry model\<close>

text \<open>
  The object literal built by \<open>add\<close>. The two timestamps are ISO strings in the source
  (\<open>new Date().toISOString()\<close>), read back with \<open>new Date(s).getTime()\<close>; the round trip
  is exact to the millisecond, so they are kept as the millisecond counts they denote.
  \<open>id_m\<close> is the field \<open>id\<close>.
\<close>

record metaTags =
  layer :: string
  persistence :: string
  visibility :: string
  category :: string
  status :: string
  contextWeight :: real

record metadata =
  created :: int
  lastAccessed :: int
  accessCount :: nat
  source :: string

record memory =
  id_m :: string
  priority :: int
  content :: string
  metaTags :: metaTags
  systemTags :: "string list"
  metadata :: metadata

record working_memory =
  maxSlots :: nat
  slots :: "memory list"

text \<open>\<open>constructor(maxSlots = 7)\<close>: \<open>None\<close> is the omitted argument.\<close>

definition new_WorkingMemory :: "nat option \<Rightarrow> working_memory" where
  "new_WorkingMemory maxSlots_arg =
     \<lparr>maxSlots = (case maxSlots_arg of None \<Rightarrow> 7 | Some n \<Rightarrow> n), slots = []\<rparr>"

section \<open>Scoring\<close>

definition categoryWeights :: "(string \<times> real) list" where
  "categoryWeights =
     [(''decision'', 1.0), (''insight'', 0.9), (''pattern'', 0.8),
      (''reference'', 0.6), (''task'', 0.5), (''result'', 0.4)]"

text \<open>
  \<open>calculateValue(memory)\<close>; \<open>now\<close> is the value its \<open>Date.now()\<close> returns. The
  arithmetic is exact; the double the runtime computes is this value rounded (and
  Infinity where \<open>Math.exp\<close> overflows). What is proved below of the order of eviction
  in general is proved for an arbitrary scoring function, not for this one.
\<close>

definition calculateValue :: "int \<Rightarrow> memory \<Rightarrow> js_value" where
  "calculateValue now memory =
     (let age = now - lastAccessed (metadata memory);
          ageDecay = exp (- real_of_int age / (1000 * 60 * 60));
          accessBonus = ln (real (accessCount (metadata memory) + 1));
          priorityWeight = real_of_int (priority memory) / 7;
          categoryWeight = js_or (get_property categoryWeights (category (metaTags memory))) (Num 0.5)
      in js_plus
           (js_plus
              (js_plus (Num (ageDecay * 0.3)) (Num (accessBonus * 0.2)))
              (Num (priorityWeight * 0.3)))
           (js_times categoryWeight (Num 0.2)))"

section \<open>The bounded store\<close>

text \<open>
  \<open>Array.prototype.sort(comparefn)\<close>. ECMAScript turns the comparator's result into a
  number and reads NaN as \<open>+0\<close>; the sort is stable, and for a consistent comparator
  its result is the one stable ordering, which an insertion from the right computes.
  When a score is NaN the comparator is not consistent and the standard leaves the order
  to the implementation; the theorems on the order of eviction are stated for scores
  without NaN. The one store with a NaN score that is evaluated below has the NaN in
  the middle of three entries: each entry compares as a tie with its neighbour, so the
  run detection of V8 finds the array in order and leaves it, as the insertion here
  does.
\<close>

definition SortCompare :: "('a \<Rightarrow> 'a \<Rightarrow> js_value) \<Rightarrow> 'a \<Rightarrow> 'a \<Rightarrow> js_value" where
  "SortCompare comparefn x y = (case ToNumber (comparefn x y) of NaN \<Rightarrow> Num 0 | v \<Rightarrow> v)"

fun sort_insert :: "('a \<Rightarrow> 'a \<Rightarrow> js_value) \<Rightarrow> 'a \<Rightarrow> 'a list \<Rightarrow> 'a list" where
  "sort_insert comparefn x [] = [x]"
| "sort_insert comparefn x (y # ys) =
     (if js_le (SortCompare comparefn x y) (Num 0) then x # y # ys
      else y # sort_insert comparefn x ys)"

definition js_sort :: "('a \<Rightarrow> 'a \<Rightarrow> js_value) \<Rightarrow> 'a list \<Rightarrow> 'a list" where
  "js_sort comparefn xs = foldr (sort_insert comparefn) xs []"

text \<open>
  \<open>this.slots.map(m => ({memory: m, score: this.calculateValue(m)}))\<close>: every call of
  \<open>calculateValue\<close> reads the clock itself, so \<open>clk i\<close> is the reading taken while slot
  \<open>i\<close> is scored. The method called is a parameter here, \<open>score now m\<close> being what
  \<open>this.calculateValue(m)\<close> returns when its \<open>Date.now()\<close> reads \<open>now\<close>: what is proved
  for every \<open>score\<close> holds for the doubles the runtime computes as well as for the
  exact \<open>calculateValue\<close> above.
\<close>

definition scored_slots_by ::
  "(int \<Rightarrow> memory \<Rightarrow> js_value) \<Rightarrow> (nat \<Rightarrow> int) \<Rightarrow> memory list \<Rightarrow> (memory \<times> js_value) list" where
  "scored_slots_by score clk ms = map (\<lambda>(i, m). (m, score (clk i) m)) (enumerate 0 ms)"

definition scored_slots :: "(nat \<Rightarrow> int) \<Rightarrow> memory list \<Rightarrow> (memory \<times> js_value) list" where
  "scored_slots = scored_slots_by calculateValue"

text \<open>
  The comparator \<open>(a, b) => a.score - b.score\<close>. The difference of two doubles, rounded,
  has the sign of the exact difference and is zero only when they are equal, so the
  exact difference decides every comparison as the rounded one does.
\<close>

definition by_score :: "memory \<times> js_value \<Rightarrow> memory \<times> js_value \<Rightarrow> js_value" where
  "by_score a b = js_minus (snd a) (snd b)"

text \<open>
  \<open>evictLowestValue()\<close>: \<open>None\<close> is the \<open>null\<close> returned on an empty store. The
  \<open>console.log\<close> for an evicted decision or insight writes to the console only and is
  left out. \<open>scored[0]\<close> exists because sorting keeps the length.
\<close>

definition evictLowestValue_by ::
  "(int \<Rightarrow> memory \<Rightarrow> js_value) \<Rightarrow> (nat \<Rightarrow> int) \<Rightarrow> working_memory
     \<Rightarrow> memory option \<times> working_memory" where
  "evictLowestValue_by score clk wm =
     (if length (slots wm) = 0 then (None, wm)
      else
        let scored = js_sort by_score (scored_slots_by score clk (slots wm));
            evicted = fst (hd scored)
        in (Some evicted, wm\<lparr>slots := filter (\<lambda>m. id_m m \<noteq> id_m evicted) (slots wm)\<rparr>))"

definition evictLowestValue :: "(nat \<Rightarrow> int) \<Rightarrow> working_memory \<Rightarrow> memory option \<times> working_memory" where
  "evictLowestValue = evictLowestValue_by calculateValue"

text \<open>
  \<open>add(content, category, priority = 5, tags = [])\<close>. \<open>None\<close> is an omitted (or
  \<open>undefined\<close>) argument; a priority that is given is an integer. \<open>clk\<close> lists the
  clock readings of the call in the order they are taken: \<open>clk 0\<close> by \<open>Date.now()\<close> in
  the id, \<open>clk 1\<close> and \<open>clk 2\<close> by the two \<open>new Date()\<close> of the metadata, \<open>clk (3 + i)\<close>
  while slot \<open>i\<close> is scored for eviction; \<open>random36\<close> is the string
  \<open>Math.random().toString(36)\<close>, of which \<open>substring(7)\<close> keeps the tail.
\<close>

definition add ::
  "(nat \<Rightarrow> int) \<Rightarrow> string \<Rightarrow> string \<Rightarrow> string \<Rightarrow> int option \<Rightarrow> string list option
     \<Rightarrow> working_memory \<Rightarrow> memory \<times> working_memory" where
  "add clk random36 content_arg category_arg priority_arg tags_arg wm =
     (let priority_v = (case priority_arg of None \<Rightarrow> 5 | Some p \<Rightarrow> p);
          tags = (case tags_arg of None \<Rightarrow> [] | Some ts \<Rightarrow> ts);
          memory =
            \<lparr>id_m = ''wm_'' @ show_int (clk 0) @ ''_'' @ drop 7 random36,
             priority = min (max priority_v 1) 7,
             content = take 200 content_arg,
             metaTags =
               \<lparr>layer = ''working_memory'', persistence = ''session'',
                visibility = ''on_demand'', category = category_arg,
                status = ''active'', contextWeight = 0.2\<rparr>,
             systemTags = tags,
             metadata =
               \<lparr>created = clk 1, lastAccessed = clk 2, accessCount = 0,
                source = ''manual''\<rparr>\<rparr>;
          wm1 = (if length (slots wm) \<ge> maxSlots wm
                 then snd (evictLowestValue (\<lambda>i. clk (3 + i)) wm) else wm)
      in (memory, wm1\<lparr>slots := slots wm1 @ [memory]\<rparr>))"

text \<open>
  \<open>access(memoryId)\<close>: \<open>find\<close> returns the first slot with the id, and the two
  assignments change that object where it sits in \<open>slots\<close>. \<open>None\<close> is the \<open>undefined\<close>
  that \<open>find\<close> returns when no slot matches. \<open>now\<close> is the clock reading.
\<close>

definition touch :: "int \<Rightarrow> memory \<Rightarrow> memory" where
  "touch now m =
     m\<lparr>metadata := (metadata m)\<lparr>lastAccessed := now, accessCount := accessCount (metadata m) + 1\<rparr>\<rparr>"

fun touch_first :: "int \<Rightarrow> string \<Rightarrow> memory list \<Rightarrow> memory list" where
  "touch_first now memoryId [] = []"
| "touch_first now memoryId (m # ms) =
     (if id_m m = memoryId then touch now m # ms else m # touch_first now memoryId ms)"

definition access :: "int \<Rightarrow> string \<Rightarrow> working_memory \<Rightarrow> memory option \<times> working_memory" where
  "access now memoryId wm =
     (case find (\<lambda>m. id_m m = memoryId) (slots wm) of
        None \<Rightarrow> (None, wm)
      | Some m \<Rightarrow> (Some (touch now m), wm\<lparr>slots := touch_first now memoryId (slots wm)\<rparr>))"

text \<open>
  \<open>list(verbose = false)\<close>: the slots themselves, or each with its freshly computed
  score (the number that \<open>toFixed(3)\<close> then prints).
\<close>

definition list_wm :: "(nat \<Rightarrow> int) \<Rightarrow> bool \<Rightarrow> working_memory \<Rightarrow> (memory \<times> js_value option) list" where
  "list_wm clk verbose wm =
     (if verbose then map (\<lambda>(m, v). (m, Some v)) (scored_slots clk (slots wm))
      else map (\<lambda>m. (m, None)) (slots wm))"

text \<open>The methods that the class body of \<open>WorkingMemory\<close> defines.\<close>

definition WorkingMemory_methods :: "string list" where
  "WorkingMemory_methods =
     [''constructor'', ''calculateValue'', ''add'', ''evictLowestValue'', ''access'',
      ''list'', ''getSummary'']"

text \<open>
  Clearing is done by the tool handler, \<open>case 'clear'\<close> of the \<open>elvis_memory\<close> tool in
  index.js, on the store it owns: it reads the length, assigns the empty array and
  answers with a text. \<open>TextContent\<close> is that answer, \<open>{content: [{type: 'text', text}]}\<close>;
  \<open>Count\<close> is a plain number, which the handler never returns and the specification
  expects.
\<close>

datatype tool_result = Count nat | TextContent string

definition elvis_memory_clear :: "working_memory \<Rightarrow> tool_result \<times> working_memory" where
  "elvis_memory_clear wm =
     (let count = length (slots wm)
      in (TextContent (''Cleared '' @ show_nat count @ '' memories from working memory.''),
          wm\<lparr>slots := []\<rparr>))"

text \<open>Sequences of calls on one store.\<close>

datatype call =
    Add "nat \<Rightarrow> int" string string string "int option" "string list option"
  | EvictLowestValue "nat \<Rightarrow> int"
  | Access int string
  | Clear

fun step :: "call \<Rightarrow> working_memory \<Rightarrow> working_memory" where
  "step (Add clk r c cat p ts) wm = snd (add clk r c cat p ts wm)"
| "step (EvictLowestValue clk) wm = snd (evictLowestValue clk wm)"
| "step (Access now i) wm = snd (access now i wm)"
| "step Clear wm = snd (elvis_memory_clear wm)"

fun run :: "call list \<Rightarrow> working_memory \<Rightarrow> working_memory" where
  "run [] wm = wm"
| "run (c # cs) wm = run cs (step c wm)"

section \<open>Reading an id back\<close>





text \<open>The pairs that the inserts of a sequence of calls read, in order.\<close>

fun insert_keys :: "call list \<Rightarrow> (int \<times> string) list" where
  "insert_keys [] = []"
| "insert_keys (Add clk r c cat p ts # cs) = (clk 0, drop 7 r) # insert_keys cs"
| "insert_keys (c # cs) = insert_keys cs"


section \<open>The scoring formula of the specification\<close>

text \<open>
  The score as the specification words it, to compare \<open>calculateValue\<close> with: the
  weight table with 0.5 for every other category, and the sum of the four weighted terms.
\<close>

definition spec_weight :: "string \<Rightarrow> real" where
  "spec_weight c =
     (if c = ''decision'' then 1.0 else if c = ''insight'' then 0.9
      else if c = ''pattern'' then 0.8 else if c = ''reference'' then 0.6
      else if c = ''task'' then 0.5 else if c = ''result'' then 0.4 else 0.5)"

definition spec_score :: "int \<Rightarrow> memory \<Rightarrow> real" where
  "spec_score now e =
     0.3 * exp (- real_of_int (now - lastAccessed (metadata e)) / 3600000)
     + 0.2 * ln (real (accessCount (metadata e) + 1))
     + 0.3 * (real_of_int (priority e) / 7)
     + 0.2 * spec_weight (category (metaTags e))"

section \<open>Example runs\<close>

text \<open>
  A store of capacity 2 after two inserts whose ids differ, and one after two inserts
  that read the same millisecond and whose random strings end alike, so that both
  entries carry the id \<open>wm_1000_82mvyr\<close>.
\<close>

definition ex_clk :: "nat \<Rightarrow> int" where
  "ex_clk = (\<lambda>i. 1000)"

definition ex_A :: memory where
  "ex_A = fst (add ex_clk ''0.4fzyo82mvyr'' ''use the small model'' ''decision'' (Some 7) None
                 (new_WorkingMemory (Some 2)))"

definition ex_B :: memory where
  "ex_B = fst (add ex_clk ''0.k3c1p97qd0a'' ''task 2 returned'' ''result'' (Some 1) None
                 (new_WorkingMemory (Some 2)))"

definition ex_store :: working_memory where
  "ex_store =
     run [Add ex_clk ''0.4fzyo82mvyr'' ''use the small model'' ''decision'' (Some 7) None,
          Add ex_clk ''0.k3c1p97qd0a'' ''task 2 returned'' ''result'' (Some 1) None]
       (new_WorkingMemory (Some 2))"

definition ex_dup_store :: working_memory where
  "ex_dup_store =
     run [Add ex_clk ''0.4fzyo82mvyr'' ''first'' ''task'' None None,
          Add ex_clk ''0.k3c1p82mvyr'' ''second'' ''task'' None None]
       (new_WorkingMemory (Some 2))"

text \<open>
  A store of capacity 3 with pairwise distinct ids whose second entry has the category
  \<open>constructor\<close>, and so the score NaN, between a decision of priority 7 and a result
  of priority 1.
\<close>

definition ex_X :: memory where
  "ex_X = fst (add ex_clk ''0.9xw2hc51tbe'' ''built by'' ''constructor'' (Some 4) None
                 (new_WorkingMemory (Some 3)))"

definition ex_nan_store :: working_memory where
  "ex_nan_store =
     run [Add ex_clk ''0.4fzyo82mvyr'' ''use the small model'' ''decision'' (Some 7) None,
          Add ex_clk ''0.9xw2hc51tbe'' ''built by'' ''constructor'' (Some 4) None,
          Add ex_clk ''0.k3c1p97qd0a'' ''task 2 returned'' ''result'' (Some 1) None]
       (new_WorkingMemory (Some 3))"

text \<open>
  Clocks for the scenario of three inserts: one second between the inserts; and an
  insert ten hours after the first, followed by a clock set back to the start.
\<close>

definition ex_clkA :: "nat \<Rightarrow> int" where
  "ex_clkA = (\<lambda>i. 1000)"

definition ex_clkB :: "nat \<Rightarrow> int" where
  "ex_clkB = (\<lambda>i. 2000)"

definition ex_clkC :: "nat \<Rightarrow> int" where
  "ex_clkC = (\<lambda>i. 3000 + int i)"

definition ex_clk_late :: "nat \<Rightarrow> int" where
  "ex_clk_late = (\<lambda>i. 36000000)"

definition ex_clk_back :: "nat \<Rightarrow> int" where
  "ex_clk_back = (\<lambda>i. 1000)"

section \<open>The example stores, evaluated\<close>

lemma ex_store_slots: "slots ex_store = [ex_A, ex_B]" "maxSlots ex_store = 2"
  by (simp_all add: ex_store_def ex_A_def ex_B_def add_def new_WorkingMemory_def Let_def)

lemma ex_ids: "id_m ex_A = ''wm_1000_82mvyr''" "id_m ex_B = ''wm_1000_97qd0a''"
  by (simp_all add: ex_A_def ex_B_def add_def ex_clk_def show_int_def show_nat.simps digit_char_def Let_def)

section \<open>Properties of scoring\<close>

lemma categoryWeight_own:
  "c \<notin> set Object_prototype_names \<Longrightarrow>
     js_or (get_property categoryWeights c) (Num 0.5) = Num (spec_weight c)"
  by (simp add: js_or_def get_property_def categoryWeights_def spec_weight_def)

lemma categoryWeight_inherited:
  "c \<in> set Object_prototype_names \<Longrightarrow> js_or (get_property categoryWeights c) (Num 0.5) = Obj"
  by (auto simp: js_or_def get_property_def categoryWeights_def Object_prototype_names_def)

lemma calculateValue_spec_score:
  assumes "category (metaTags m) \<notin> set Object_prototype_names"
  shows "calculateValue now m = Num (spec_score now m)"
  unfolding calculateValue_def Let_def categoryWeight_own [OF assms]
  by (simp add: js_plus_def js_times_def spec_score_def)

lemma calculateValue_inherited:
  assumes "category (metaTags m) \<in> set Object_prototype_names"
  shows "calculateValue now m = NaN"
  unfolding calculateValue_def Let_def categoryWeight_inherited [OF assms]
  by (simp add: js_plus_def js_times_def)

text \<open>
  C3. The score is \<open>0.3 * exp(-(now - lastAccessed) / 3600000) + 0.2 * log(accessCount + 1)
  + 0.3 * (priority / 7) + 0.2 * w(category)\<close>, with \<open>w\<close> 0.5 on every category outside
  the table: \<open>calculateValue_spec_score\<close> has it for every category that is not the name
  of a property inherited from \<open>Object.prototype\<close>. For the category \<open>constructor\<close> the
  lookup finds the inherited function, \<open>|| 0.5\<close> keeps it, the product with 0.2 is NaN
  and so is the score: not the number the formula gives.
\<close>

theorem calculateValue_constructor:
  "calculateValue now (m\<lparr>metaTags := (metaTags m)\<lparr>category := ''constructor''\<rparr>\<rparr>) = NaN
   \<and> calculateValue now (m\<lparr>metaTags := (metaTags m)\<lparr>category := ''constructor''\<rparr>\<rparr>)
       \<noteq> Num (spec_score now (m\<lparr>metaTags := (metaTags m)\<lparr>category := ''constructor''\<rparr>\<rparr>))"
  by (simp add: calculateValue_inherited Object_prototype_names_def)

lemma spec_score_age_monotone:
  assumes "t1 \<le> t2"
  shows "spec_score now (m\<lparr>metadata := (metadata m)\<lparr>lastAccessed := t1\<rparr>\<rparr>)
         \<le> spec_score now (m\<lparr>metadata := (metadata m)\<lparr>lastAccessed := t2\<rparr>\<rparr>)"
  using assms by (simp add: spec_score_def)

lemma calculateValue_age_monotone:
  assumes "category (metaTags m) \<notin> set Object_prototype_names" and "t1 \<le> t2"
  shows "js_le (calculateValue now (m\<lparr>metadata := (metadata m)\<lparr>lastAccessed := t1\<rparr>\<rparr>))
               (calculateValue now (m\<lparr>metadata := (metadata m)\<lparr>lastAccessed := t2\<rparr>\<rparr>))"
  using assms spec_score_age_monotone [of t1 t2 now m]
  by (simp add: calculateValue_spec_score js_le_def)

text \<open>
  C8. Of two entries that differ in lastAccessed only, the one accessed earlier scores
  less than or equal to the other at a common instant: \<open>calculateValue_age_monotone\<close> has
  it for every category that is not an inherited property name. For the category
  \<open>constructor\<close> both scores are NaN, and \<open><=\<close> is false on NaN, whatever the two
  access times.
\<close>

theorem calculateValue_age_constructor:
  "\<not> js_le
       (calculateValue now
          (m\<lparr>metaTags := (metaTags m)\<lparr>category := ''constructor''\<rparr>,
             metadata := (metadata m)\<lparr>lastAccessed := t1\<rparr>\<rparr>))
       (calculateValue now
          (m\<lparr>metaTags := (metaTags m)\<lparr>category := ''constructor''\<rparr>,
             metadata := (metadata m)\<lparr>lastAccessed := t2\<rparr>\<rparr>))"
  by (simp add: calculateValue_inherited Object_prototype_names_def js_le_def)

section \<open>Sorting and eviction\<close>

lemma js_sort_Cons: "js_sort f (x # xs) = sort_insert f x (js_sort f xs)"
  by (simp add: js_sort_def)

lemma set_sort_insert: "set (sort_insert f x ys) = insert x (set ys)"
  by (induction ys) auto

lemma length_sort_insert: "length (sort_insert f x ys) = Suc (length ys)"
  by (induction ys) auto

lemma set_js_sort: "set (js_sort f xs) = set xs"
  by (induction xs) (simp_all add: js_sort_Cons set_sort_insert, simp add: js_sort_def)

lemma length_js_sort: "length (js_sort f xs) = length xs"
  by (induction xs) (simp_all add: js_sort_Cons length_sort_insert, simp add: js_sort_def)

lemma hd_js_sort_in: "xs \<noteq> [] \<Longrightarrow> hd (js_sort f xs) \<in> set xs"
  using set_js_sort [of f xs] length_js_sort [of f xs]
  by (metis hd_in_set length_0_conv)

lemma hd_sort_insert:
  "hd (sort_insert f x ys) =
     (if ys = [] \<or> js_le (SortCompare f x (hd ys)) (Num 0) then x else hd ys)"
  by (cases ys) auto

text \<open>
  The head of the sorted array, when the comparator decides a total preorder \<open>le\<close>: it
  is the first of the least elements.
\<close>

lemma hd_js_sort_first_min:
  assumes "xs \<noteq> []"
    and cmp: "\<And>x y. x \<in> set xs \<Longrightarrow> y \<in> set xs \<Longrightarrow> js_le (SortCompare f x y) (Num 0) = le x y"
    and total: "\<And>x y. x \<in> set xs \<Longrightarrow> y \<in> set xs \<Longrightarrow> le x y \<or> le y x"
    and trans: "\<And>x y z. x \<in> set xs \<Longrightarrow> y \<in> set xs \<Longrightarrow> z \<in> set xs \<Longrightarrow> le x y \<Longrightarrow> le y z \<Longrightarrow> le x z"
  shows "\<exists>i<length xs. hd (js_sort f xs) = xs ! i
           \<and> (\<forall>j<length xs. le (xs ! i) (xs ! j))
           \<and> (\<forall>j<i. \<not> le (xs ! j) (xs ! i))"
  using assms
proof (induction xs)
  case Nil
  from Nil.prems(1) show ?case by simp
next
  case (Cons x xs)
  have refl_x: "le x x"
    using Cons.prems(3) [of x x] by simp
  show ?case
  proof (cases "xs = []")
    case True
    have "hd (js_sort f [x]) = x"
      by (simp add: js_sort_def)
    with True refl_x show ?thesis by simp
  next
    case False
    have "\<exists>i<length xs. hd (js_sort f xs) = xs ! i
           \<and> (\<forall>j<length xs. le (xs ! i) (xs ! j))
           \<and> (\<forall>j<i. \<not> le (xs ! j) (xs ! i))"
    proof (rule Cons.IH)
      show "xs \<noteq> []" by (rule False)
    next
      fix a b assume "a \<in> set xs" "b \<in> set xs"
      then show "js_le (SortCompare f a b) (Num 0) = le a b"
        using Cons.prems(2) [of a b] by simp
    next
      fix a b assume "a \<in> set xs" "b \<in> set xs"
      then show "le a b \<or> le b a"
        using Cons.prems(3) [of a b] by simp
    next
      fix a b c assume "a \<in> set xs" "b \<in> set xs" "c \<in> set xs" "le a b" "le b c"
      then show "le a c"
        using Cons.prems(4) [of a b c] by simp
    qed
    then obtain i where i: "i < length xs"
      and hd_i: "hd (js_sort f xs) = xs ! i"
      and le_i: "\<And>j. j < length xs \<Longrightarrow> le (xs ! i) (xs ! j)"
      and lt_i: "\<And>j. j < i \<Longrightarrow> \<not> le (xs ! j) (xs ! i)"
      by blast
    have nonempty: "js_sort f xs \<noteq> []"
      using False length_js_sort [of f xs] by auto
    have mem_i: "xs ! i \<in> set xs" using i by simp
    then have c: "js_le (SortCompare f x (xs ! i)) (Num 0) = le x (xs ! i)"
      using Cons.prems(2) [of x "xs ! i"] by simp
    have hd_eq: "hd (js_sort f (x # xs)) = (if le x (xs ! i) then x else xs ! i)"
      using nonempty by (simp only: js_sort_Cons hd_sort_insert hd_i c if_False simp_thms)
    show ?thesis
    proof (cases "le x (xs ! i)")
      case True
      have all: "le x ((x # xs) ! j)" if j: "j < length (x # xs)" for j
      proof (cases j)
        case 0
        then show ?thesis using refl_x by simp
      next
        case (Suc j')
        with j have j': "j' < length xs" by simp
        then have "le (xs ! i) (xs ! j')" by (rule le_i)
        moreover have "xs ! j' \<in> set xs" using j' by simp
        ultimately have "le x (xs ! j')"
          using Cons.prems(4) [of x "xs ! i" "xs ! j'"] True mem_i by simp
        with Suc show ?thesis by simp
      qed
      have hd0: "hd (js_sort f (x # xs)) = (x # xs) ! 0"
        using True hd_eq by simp
      have "0 < length (x # xs)" by simp
      moreover have "\<forall>j<length (x # xs). le ((x # xs) ! 0) ((x # xs) ! j)"
        using all by simp
      moreover have "\<forall>j<(0::nat). \<not> le ((x # xs) ! j) ((x # xs) ! 0)"
        by simp
      ultimately show ?thesis
        using hd0 by blast
    next
      case gt: False
      have ix: "le (xs ! i) x"
        using Cons.prems(3) [of x "xs ! i"] mem_i gt by simp
      have a: "le (xs ! i) ((x # xs) ! j)" if "j < length (x # xs)" for j
      proof (cases j)
        case 0
        then show ?thesis using ix by simp
      next
        case (Suc j')
        with that have "j' < length xs" by simp
        then have "le (xs ! i) (xs ! j')" by (rule le_i)
        with Suc show ?thesis by simp
      qed
      have b: "\<not> le ((x # xs) ! j) (xs ! i)" if "j < Suc i" for j
      proof (cases j)
        case 0
        then show ?thesis using gt by simp
      next
        case (Suc j')
        with that have "j' < i" by simp
        then have "\<not> le (xs ! j') (xs ! i)" by (rule lt_i)
        with Suc show ?thesis by simp
      qed
      have hdS: "hd (js_sort f (x # xs)) = (x # xs) ! Suc i"
        using gt hd_eq by simp
      have "Suc i < length (x # xs)" using i by simp
      moreover have "\<forall>j<length (x # xs). le ((x # xs) ! Suc i) ((x # xs) ! j)"
        using a by simp
      moreover have "\<forall>j<Suc i. \<not> le ((x # xs) ! j) ((x # xs) ! Suc i)"
        using b by simp
      ultimately show ?thesis
        using hdS by blast
    qed
  qed
qed

lemma filter_distinct_nth:
  "distinct (map f xs) \<Longrightarrow> i < length xs \<Longrightarrow>
     filter (\<lambda>m. f m \<noteq> f (xs ! i)) xs = take i xs @ drop (Suc i) xs"
proof (induction xs arbitrary: i)
  case Nil
  then show ?case by simp
next
  case (Cons x xs)
  show ?case
  proof (cases i)
    case 0
    have "f x \<notin> f ` set xs"
      using Cons.prems(1) by simp
    then have "\<forall>m\<in>set xs. f m \<noteq> f x"
      by (metis imageI)
    then have "filter (\<lambda>m. f m \<noteq> f x) xs = xs"
      by (simp add: filter_id_conv)
    with 0 show ?thesis by simp
  next
    case (Suc i')
    with Cons.prems have "i' < length xs" "f x \<noteq> f (xs ! i')" by auto
    with Cons.IH [of i'] Cons.prems(1) Suc show ?thesis by simp
  qed
qed

lemma scored_slots_by_nth:
  "i < length ms \<Longrightarrow> scored_slots_by score clk ms ! i = (ms ! i, score (clk i) (ms ! i))"
  by (simp add: scored_slots_by_def nth_enumerate_eq)

lemma length_scored_slots_by: "length (scored_slots_by score clk ms) = length ms"
  by (simp add: scored_slots_by_def)

lemma evicted_by_in_slots:
  assumes "slots wm \<noteq> []"
  shows "\<exists>ev\<in>set (slots wm). evictLowestValue_by score clk wm =
           (Some ev, wm\<lparr>slots := filter (\<lambda>m. id_m m \<noteq> id_m ev) (slots wm)\<rparr>)"
proof -
  have "scored_slots_by score clk (slots wm) \<noteq> []"
    using assms length_scored_slots_by [of score clk "slots wm"] by auto
  then have "hd (js_sort by_score (scored_slots_by score clk (slots wm)))
             \<in> set (scored_slots_by score clk (slots wm))"
    by (rule hd_js_sort_in)
  then have "fst (hd (js_sort by_score (scored_slots_by score clk (slots wm)))) \<in> set (slots wm)"
    by (auto simp: scored_slots_by_def in_set_enumerate_eq)
  with assms show ?thesis
    by (simp add: evictLowestValue_by_def Let_def)
qed

lemma evicted_in_slots:
  assumes "slots wm \<noteq> []"
  shows "\<exists>ev\<in>set (slots wm). evictLowestValue clk wm =
           (Some ev, wm\<lparr>slots := filter (\<lambda>m. id_m m \<noteq> id_m ev) (slots wm)\<rparr>)"
  unfolding evictLowestValue_def using assms by (rule evicted_by_in_slots)

text \<open>Numbers other than NaN are totally preordered by \<open><=\<close>, and the comparator decides it.\<close>

lemma number_cases:
  assumes "ToNumber v \<noteq> NaN"
  obtains r where "ToNumber v = Num r" | "ToNumber v = Infinity" | "ToNumber v = NegInfinity"
  using assms by (cases v) auto

lemma js_le_total:
  assumes "ToNumber a \<noteq> NaN" and "ToNumber b \<noteq> NaN"
  shows "js_le a b \<or> js_le b a"
proof -
  from assms(1) consider r where "ToNumber a = Num r" | "ToNumber a = Infinity" | "ToNumber a = NegInfinity"
    by (rule number_cases)
  then show ?thesis
  proof cases
    case 1
    from assms(2) show ?thesis
      by (rule number_cases) (auto simp: js_le_def 1)
  next
    case 2
    from assms(2) show ?thesis
      by (rule number_cases) (auto simp: js_le_def 2)
  next
    case 3
    from assms(2) show ?thesis
      by (rule number_cases) (auto simp: js_le_def 3)
  qed
qed

lemma number_le_trans:
  "number_le a b \<Longrightarrow> number_le b c \<Longrightarrow> number_le a c"
  by (cases a; cases b; simp; cases c; simp)

lemma js_le_trans:
  "js_le a b \<Longrightarrow> js_le b c \<Longrightarrow> js_le a c"
  unfolding js_le_def by (rule number_le_trans)

lemma number_lt_iff_not_le:
  "a \<noteq> NaN \<Longrightarrow> a \<noteq> Undefined \<Longrightarrow> a \<noteq> Obj \<Longrightarrow> b \<noteq> NaN \<Longrightarrow> b \<noteq> Undefined \<Longrightarrow> b \<noteq> Obj \<Longrightarrow>
     number_lt a b = (\<not> number_le b a)"
  by (cases a; simp; cases b; simp) auto

lemma ToNumber_range: "ToNumber v \<noteq> Undefined" "ToNumber v \<noteq> Obj"
  by (cases v; simp)+

lemma js_lt_iff_not_le:
  "ToNumber a \<noteq> NaN \<Longrightarrow> ToNumber b \<noteq> NaN \<Longrightarrow> js_lt a b = (\<not> js_le b a)"
  unfolding js_le_def js_lt_def
  by (rule number_lt_iff_not_le) (simp_all add: ToNumber_range)

lemma number_compare:
  "a \<noteq> NaN \<Longrightarrow> a \<noteq> Undefined \<Longrightarrow> a \<noteq> Obj \<Longrightarrow> b \<noteq> NaN \<Longrightarrow> b \<noteq> Undefined \<Longrightarrow> b \<noteq> Obj \<Longrightarrow>
     number_le (case ToNumber (number_minus a b) of NaN \<Rightarrow> Num 0 | v \<Rightarrow> v) (Num 0) = number_le a b"
  by (cases a; simp; cases b; simp)

lemma SortCompare_by_score:
  assumes "ToNumber (snd a) \<noteq> NaN" and "ToNumber (snd b) \<noteq> NaN"
  shows "js_le (SortCompare by_score a b) (Num 0) = js_le (snd a) (snd b)"
proof -
  have "number_le (case ToNumber (number_minus (ToNumber (snd a)) (ToNumber (snd b))) of
                     NaN \<Rightarrow> Num 0 | v \<Rightarrow> v) (Num 0)
        = number_le (ToNumber (snd a)) (ToNumber (snd b))"
    using assms by (intro number_compare) (simp_all add: ToNumber_range)
  moreover have "ToNumber (case ToNumber (number_minus (ToNumber (snd a)) (ToNumber (snd b))) of
                     NaN \<Rightarrow> Num 0 | v \<Rightarrow> v)
        = (case ToNumber (number_minus (ToNumber (snd a)) (ToNumber (snd b))) of
                     NaN \<Rightarrow> Num 0 | v \<Rightarrow> v)"
    using ToNumber_range [of "number_minus (ToNumber (snd a)) (ToNumber (snd b))"]
    by (cases "ToNumber (number_minus (ToNumber (snd a)) (ToNumber (snd b)))") simp_all
  ultimately show ?thesis
    by (simp add: SortCompare_def by_score_def js_minus_def js_le_def)
qed

text \<open>
  C2. On an empty store \<open>evictLowestValue\<close> removes nothing and returns the absent
  result. On a non-empty store whose live ids are pairwise distinct and none of whose
  scores is NaN, it scores every live entry (each at the clock reading taken for it),
  removes exactly the entry of minimum score and returns it, and among several entries
  of that minimum score it takes the one at the lowest position: every entry before it
  scores strictly more. This holds whatever numbers \<open>calculateValue\<close> returns
  (\<open>evictLowestValue_by\<close> has the method as its parameter \<open>score\<close>), so for the doubles
  of the runtime, where scores that differ by less than the rounding are the same
  score. The result is a function of the store, the scores and the clock readings.
\<close>

theorem evictLowestValue_minimum:
  "(slots wm = [] \<longrightarrow> evictLowestValue_by score clk wm = (None, wm))
   \<and> (slots wm \<noteq> [] \<and> distinct (map id_m (slots wm))
        \<and> (\<forall>i<length (slots wm). ToNumber (score (clk i) (slots wm ! i)) \<noteq> NaN) \<longrightarrow>
       (\<exists>i<length (slots wm).
          evictLowestValue_by score clk wm =
            (Some (slots wm ! i), wm\<lparr>slots := take i (slots wm) @ drop (Suc i) (slots wm)\<rparr>)
          \<and> (\<forall>j<length (slots wm).
                js_le (score (clk i) (slots wm ! i)) (score (clk j) (slots wm ! j)))
          \<and> (\<forall>j<i.
                js_lt (score (clk i) (slots wm ! i)) (score (clk j) (slots wm ! j)))))"
proof (intro conjI impI)
  assume "slots wm = []"
  then show "evictLowestValue_by score clk wm = (None, wm)"
    by (simp add: evictLowestValue_by_def)
next
  assume a: "slots wm \<noteq> [] \<and> distinct (map id_m (slots wm))
        \<and> (\<forall>i<length (slots wm). ToNumber (score (clk i) (slots wm ! i)) \<noteq> NaN)"
  define ms where "ms = slots wm"
  define sc where "sc = scored_slots_by score clk ms"
  define le where "le = (\<lambda>(p :: memory \<times> js_value) (q :: memory \<times> js_value). js_le (snd p) (snd q))"
  from a have ne: "ms \<noteq> []" and dist: "distinct (map id_m ms)"
    and num: "\<And>i. i < length ms \<Longrightarrow> ToNumber (score (clk i) (ms ! i)) \<noteq> NaN"
    by (simp_all add: ms_def)
  have len: "length sc = length ms"
    by (simp add: sc_def length_scored_slots_by)
  have nth_sc: "\<And>i. i < length ms \<Longrightarrow> sc ! i = (ms ! i, score (clk i) (ms ! i))"
    by (simp add: sc_def scored_slots_by_nth)
  have numeric: "ToNumber (snd p) \<noteq> NaN" if "p \<in> set sc" for p
  proof -
    from that obtain i where "i < length ms" "p = sc ! i"
      using len by (auto simp: in_set_conv_nth)
    with nth_sc [of i] num [of i] show ?thesis by simp
  qed
  have "sc \<noteq> []" using ne len by auto
  have "\<exists>i<length sc. hd (js_sort by_score sc) = sc ! i
           \<and> (\<forall>j<length sc. le (sc ! i) (sc ! j))
           \<and> (\<forall>j<i. \<not> le (sc ! j) (sc ! i))"
  proof (rule hd_js_sort_first_min)
    show "sc \<noteq> []" by fact
  next
    fix x y assume "x \<in> set sc" "y \<in> set sc"
    then show "js_le (SortCompare by_score x y) (Num 0) = le x y"
      unfolding le_def by (intro SortCompare_by_score numeric)
  next
    fix x y assume "x \<in> set sc" "y \<in> set sc"
    then show "le x y \<or> le y x"
      unfolding le_def by (intro js_le_total numeric)
  next
    fix x y z assume "le x y" "le y z"
    then show "le x z"
      unfolding le_def by (rule js_le_trans)
  qed
  then obtain i where i: "i < length ms"
    and hd_i: "hd (js_sort by_score sc) = sc ! i"
    and le_i: "\<And>j. j < length ms \<Longrightarrow> le (sc ! i) (sc ! j)"
    and lt_i: "\<And>j. j < i \<Longrightarrow> \<not> le (sc ! j) (sc ! i)"
    using len by auto
  have ev: "evictLowestValue_by score clk wm =
              (Some (ms ! i), wm\<lparr>slots := take i ms @ drop (Suc i) ms\<rparr>)"
    using ne i hd_i nth_sc [OF i] filter_distinct_nth [OF dist i]
    by (simp add: evictLowestValue_by_def Let_def ms_def [symmetric] sc_def [symmetric])
  have le: "js_le (score (clk i) (ms ! i)) (score (clk j) (ms ! j))" if "j < length ms" for j
    using le_i [OF that] nth_sc [OF i] nth_sc [OF that] by (simp add: le_def)
  have lt: "js_lt (score (clk i) (ms ! i)) (score (clk j) (ms ! j))" if "j < i" for j
  proof -
    from that i have j: "j < length ms" by simp
    from lt_i [OF that] nth_sc [OF i] nth_sc [OF j]
    have "\<not> js_le (score (clk j) (ms ! j)) (score (clk i) (ms ! i))"
      by (simp add: le_def)
    then show ?thesis
      using num [OF i] num [OF j] by (simp add: js_lt_iff_not_le)
  qed
  from i ev le lt show "\<exists>i<length (slots wm).
          evictLowestValue_by score clk wm =
            (Some (slots wm ! i), wm\<lparr>slots := take i (slots wm) @ drop (Suc i) (slots wm)\<rparr>)
          \<and> (\<forall>j<length (slots wm).
                js_le (score (clk i) (slots wm ! i)) (score (clk j) (slots wm ! j)))
          \<and> (\<forall>j<i.
                js_lt (score (clk i) (slots wm ! i)) (score (clk j) (slots wm ! j)))"
    unfolding ms_def by blast
qed

lemma ex_scores:
  "calculateValue (ex_clk i) ex_A = Num 0.8"
  "calculateValue (ex_clk i) ex_B = Num (0.38 + 0.3 / 7)"
  by (simp_all add: calculateValue_spec_score spec_score_def spec_weight_def ex_A_def ex_B_def
      ex_clk_def add_def Let_def Object_prototype_names_def)

lemma ex_dup_slots:
  "length (slots ex_dup_store) = 2"
  "maxSlots ex_dup_store = 2"
  "map id_m (slots ex_dup_store) = [''wm_1000_82mvyr'', ''wm_1000_82mvyr'']"
  by (simp_all add: ex_dup_store_def add_def new_WorkingMemory_def Let_def ex_clk_def
      show_int_def show_nat.simps digit_char_def)

lemma ex_nan_slots:
  "slots ex_nan_store = [ex_A, ex_X, ex_B]"
  "id_m ex_X = ''wm_1000_c51tbe''"
  "calculateValue (ex_clk i) ex_X = NaN"
proof -
  show "slots ex_nan_store = [ex_A, ex_X, ex_B]"
    by (simp add: ex_nan_store_def ex_A_def ex_B_def ex_X_def add_def new_WorkingMemory_def Let_def)
  show "id_m ex_X = ''wm_1000_c51tbe''"
    by (simp add: ex_X_def add_def ex_clk_def show_int_def show_nat.simps digit_char_def Let_def)
  show "calculateValue (ex_clk i) ex_X = NaN"
    by (rule calculateValue_inherited)
      (simp add: ex_X_def add_def Let_def Object_prototype_names_def)
qed

theorem evictLowestValue_minimum_witness:
  "evictLowestValue ex_clk ex_store = (Some ex_B, ex_store\<lparr>slots := [ex_A]\<rparr>)
   \<and> evictLowestValue ex_clk (new_WorkingMemory None) = (None, new_WorkingMemory None)"
proof -
  note thm_empty = evictLowestValue_minimum [of "new_WorkingMemory None" calculateValue ex_clk]
  note thm_store = evictLowestValue_minimum [of ex_store calculateValue ex_clk]
  have inst: "evictLowestValue ex_clk w = evictLowestValue_by calculateValue ex_clk w" for w
    by (simp add: evictLowestValue_def)
  have empty: "slots (new_WorkingMemory None) = []"
    by (simp add: new_WorkingMemory_def)
  have two: "\<And>i. i < length (slots ex_store) \<Longrightarrow> i = 0 \<or> i = 1"
    by (auto simp: ex_store_slots)
  have num: "\<forall>i<length (slots ex_store). ToNumber (calculateValue (ex_clk i) (slots ex_store ! i)) \<noteq> NaN"
  proof (intro allI impI)
    fix i assume "i < length (slots ex_store)"
    from two [OF this]
    show "ToNumber (calculateValue (ex_clk i) (slots ex_store ! i)) \<noteq> NaN"
      by (auto simp: ex_store_slots ex_scores)
  qed
  have "slots ex_store \<noteq> [] \<and> distinct (map id_m (slots ex_store))"
    by (simp add: ex_store_slots ex_ids)
  with num have hyps: "slots ex_store \<noteq> [] \<and> distinct (map id_m (slots ex_store))
        \<and> (\<forall>i<length (slots ex_store). ToNumber (calculateValue (ex_clk i) (slots ex_store ! i)) \<noteq> NaN)"
    by blast
  from thm_empty empty
  have first: "evictLowestValue ex_clk (new_WorkingMemory None) = (None, new_WorkingMemory None)"
    by (simp add: inst)
  from thm_store hyps
  obtain i where i: "i < length (slots ex_store)"
    and ev: "evictLowestValue_by calculateValue ex_clk ex_store =
            (Some (slots ex_store ! i), ex_store\<lparr>slots := take i (slots ex_store) @ drop (Suc i) (slots ex_store)\<rparr>)"
    and le: "\<forall>j<length (slots ex_store).
                js_le (calculateValue (ex_clk i) (slots ex_store ! i)) (calculateValue (ex_clk j) (slots ex_store ! j))"
    by blast
  have "i \<noteq> 0"
  proof
    assume "i = 0"
    moreover have "(1::nat) < length (slots ex_store)"
      by (simp add: ex_store_slots)
    ultimately have "js_le (calculateValue (ex_clk 0) (slots ex_store ! 0))
                           (calculateValue (ex_clk 1) (slots ex_store ! 1))"
      using le by blast
    then have "js_le (calculateValue (ex_clk 0) ex_A) (calculateValue (ex_clk 1) ex_B)"
      by (simp add: ex_store_slots)
    then show False
      by (simp add: ex_scores js_le_def)
  qed
  with two [OF i] have "i = 1" by simp
  with ev inst have "evictLowestValue ex_clk ex_store = (Some ex_B, ex_store\<lparr>slots := [ex_A]\<rparr>)"
    by (simp add: ex_store_slots)
  with first show ?thesis by simp
qed

text \<open>
  Where the claim fails as worded. In the store whose two entries carry the same id, the
  eviction removes both, since it removes by id. In the store whose second entry has
  the score NaN, every comparison the sort makes involves the NaN and counts as a tie,
  the array stays as it is, and the entry evicted is the first, a decision of score
  0.8, although the result entry scores lower.
\<close>

theorem evictLowestValue_not_minimum:
  "length (slots ex_dup_store) = 2
   \<and> fst (evictLowestValue ex_clk ex_dup_store) \<noteq> None
   \<and> slots (snd (evictLowestValue ex_clk ex_dup_store)) = []
   \<and> slots ex_nan_store = [ex_A, ex_X, ex_B]
   \<and> distinct (map id_m (slots ex_nan_store))
   \<and> calculateValue (ex_clk 1) ex_X = NaN
   \<and> fst (evictLowestValue ex_clk ex_nan_store) = Some ex_A
   \<and> js_lt (calculateValue (ex_clk 2) ex_B) (calculateValue (ex_clk 0) ex_A)"
proof -
  have ne: "slots ex_dup_store \<noteq> []"
    using ex_dup_slots(1) by auto
  from evicted_in_slots [OF ne, of ex_clk] obtain ev where ev: "ev \<in> set (slots ex_dup_store)"
    and res: "evictLowestValue ex_clk ex_dup_store =
           (Some ev, ex_dup_store\<lparr>slots := filter (\<lambda>m. id_m m \<noteq> id_m ev) (slots ex_dup_store)\<rparr>)"
    by blast
  have "set (map id_m (slots ex_dup_store)) = {''wm_1000_82mvyr''}"
    by (simp add: ex_dup_slots(3))
  then have all: "\<forall>m\<in>set (slots ex_dup_store). id_m m = ''wm_1000_82mvyr''"
    by auto
  with ev have "filter (\<lambda>m. id_m m \<noteq> id_m ev) (slots ex_dup_store) = []"
    by (simp add: filter_empty_conv)
  with res have dup: "fst (evictLowestValue ex_clk ex_dup_store) \<noteq> None
      \<and> slots (snd (evictLowestValue ex_clk ex_dup_store)) = []"
    by simp
  have dist: "distinct (map id_m (slots ex_nan_store))"
    by (simp add: ex_nan_slots ex_ids)
  have evict: "fst (evictLowestValue ex_clk ex_nan_store) = Some ex_A"
    by (simp add: evictLowestValue_def evictLowestValue_by_def Let_def ex_nan_slots
        scored_slots_by_def ex_scores js_sort_def SortCompare_def by_score_def js_minus_def
        js_le_def)
  have lower: "js_lt (calculateValue (ex_clk 2) ex_B) (calculateValue (ex_clk 0) ex_A)"
    by (simp add: ex_scores js_lt_def)
  from dup dist evict lower show ?thesis
    by (simp add: ex_dup_slots(1) ex_nan_slots)
qed

section \<open>Properties of insert\<close>

text \<open>
  C10. When \<open>add\<close> is called without a priority (the argument omitted or \<open>undefined\<close>),
  the entry it creates has priority 5.
\<close>

theorem add_default_priority:
  "priority (fst (add clk random36 c cat None ts wm)) = 5"
  by (simp add: add_def Let_def)

text \<open>
  C7. For every content string and integer priority, the created entry stores the
  priority clamped to 1..7 (20 becomes 7, -3 becomes 1, 4 stays 4) and the first 200
  characters of the content (a content of length 350 is stored with length 200); the
  call always returns the entry and appends it to the store.
\<close>

theorem add_normalizes:
  "priority (fst (add clk random36 c cat (Some p) ts wm)) = min (max p 1) 7
   \<and> 1 \<le> priority (fst (add clk random36 c cat (Some p) ts wm))
   \<and> priority (fst (add clk random36 c cat (Some p) ts wm)) \<le> 7
   \<and> priority (fst (add clk random36 c cat (Some 20) ts wm)) = 7
   \<and> priority (fst (add clk random36 c cat (Some (- 3)) ts wm)) = 1
   \<and> priority (fst (add clk random36 c cat (Some 4) ts wm)) = 4
   \<and> content (fst (add clk random36 c cat pr ts wm)) = take 200 c
   \<and> length (content (fst (add clk random36 c cat pr ts wm))) = min 200 (length c)
   \<and> length (content (fst (add clk random36 (replicate 350 x) cat pr ts wm))) = 200
   \<and> last (slots (snd (add clk random36 c cat pr ts wm))) = fst (add clk random36 c cat pr ts wm)"
  by (simp add: add_def Let_def min_def max_def)

section \<open>The capacity bound\<close>

lemma evict_is_filter:
  "maxSlots (snd (evictLowestValue clk wm)) = maxSlots wm
   \<and> (\<exists>P. slots (snd (evictLowestValue clk wm)) = filter P (slots wm))"
proof (cases "slots wm = []")
  case True
  then show ?thesis by (simp add: evictLowestValue_def evictLowestValue_by_def)
next
  case False
  from evicted_in_slots [OF this, of clk] show ?thesis by auto
qed

lemma evict_length_less:
  assumes "slots wm \<noteq> []"
  shows "length (slots (snd (evictLowestValue clk wm))) < length (slots wm)"
proof -
  from evicted_in_slots [OF assms, of clk] obtain ev where ev: "ev \<in> set (slots wm)"
    and res: "evictLowestValue clk wm =
           (Some ev, wm\<lparr>slots := filter (\<lambda>m. id_m m \<noteq> id_m ev) (slots wm)\<rparr>)"
    by blast
  from ev have "length (filter (\<lambda>m. id_m m \<noteq> id_m ev) (slots wm)) < length (slots wm)"
    by (intro length_filter_less [of ev]) simp_all
  with res show ?thesis by simp
qed

lemma add_result:
  "maxSlots (snd (add clk r c cat p ts wm)) = maxSlots wm"
  "slots (snd (add clk r c cat p ts wm)) =
     (if maxSlots wm \<le> length (slots wm)
      then slots (snd (evictLowestValue (\<lambda>i. clk (3 + i)) wm)) else slots wm)
     @ [fst (add clk r c cat p ts wm)]"
  using evict_is_filter [of "\<lambda>i. clk (3 + i)" wm]
  by (simp_all add: add_def Let_def)

lemma map_id_touch_first: "map id_m (touch_first now i ms) = map id_m ms"
  by (induction ms) (simp_all add: touch_def)

lemma access_result:
  "maxSlots (snd (access now i wm)) = maxSlots wm"
  "map id_m (slots (snd (access now i wm))) = map id_m (slots wm)"
  by (simp_all add: access_def map_id_touch_first split: option.splits)

lemma step_capacity:
  assumes "1 \<le> maxSlots wm" and "length (slots wm) \<le> maxSlots wm"
  shows "maxSlots (step c wm) = maxSlots wm \<and> length (slots (step c wm)) \<le> maxSlots wm"
proof (cases c)
  case (Add clk r c' cat p ts)
  show ?thesis
  proof (cases "maxSlots wm \<le> length (slots wm)")
    case True
    with assms have "slots wm \<noteq> []" by auto
    from evict_length_less [OF this, of "\<lambda>i. clk (3 + i)"] assms True Add
    show ?thesis by (simp add: add_result)
  next
    case False
    with Add show ?thesis by (simp add: add_result)
  qed
next
  case (EvictLowestValue clk)
  from evict_is_filter [of clk wm] obtain P where
    "maxSlots (snd (evictLowestValue clk wm)) = maxSlots wm"
    "slots (snd (evictLowestValue clk wm)) = filter P (slots wm)"
    by blast
  moreover have "length (filter P (slots wm)) \<le> maxSlots wm"
    using assms(2) by (rule order_trans [OF length_filter_le])
  ultimately show ?thesis
    using EvictLowestValue by simp
next
  case (Access now i)
  have "length (map id_m (slots (snd (access now i wm)))) = length (map id_m (slots wm))"
    by (simp only: access_result)
  then have "length (slots (snd (access now i wm))) = length (slots wm)"
    by simp
  with assms Access show ?thesis by (simp add: access_result(1))
next
  case Clear
  then show ?thesis by (simp add: elvis_memory_clear_def Let_def)
qed

lemma run_capacity:
  "1 \<le> maxSlots wm \<Longrightarrow> length (slots wm) \<le> maxSlots wm \<Longrightarrow>
     maxSlots (run calls wm) = maxSlots wm \<and> length (slots (run calls wm)) \<le> maxSlots wm"
proof (induction calls arbitrary: wm)
  case Nil
  then show ?case by simp
next
  case (Cons c calls)
  from step_capacity [OF Cons.prems, of c]
  have s: "maxSlots (step c wm) = maxSlots wm" "length (slots (step c wm)) \<le> maxSlots (step c wm)"
    by simp_all
  with Cons.prems have "1 \<le> maxSlots (step c wm)" by simp
  from Cons.IH [OF this s(2)] s(1) show ?case by simp
qed

text \<open>
  C1. For every capacity C of at least 1 fixed at construction (7 when none is given)
  and every sequence of calls (inserts, and evictions, accesses and clears as well), the
  number of live entries is at most C after every call. An insert into a store below
  capacity appends and evicts nothing. An insert into a store at or above capacity
  first evicts at least one entry, namely the entry that \<open>evictLowestValue\<close> selects
  and every other live entry that carries its id, then appends the new one; when the
  live ids are pairwise distinct it evicts exactly that one entry, so the size is
  unchanged.
\<close>

theorem add_capacity:
  "(1 \<le> C \<longrightarrow>
      maxSlots (run calls (new_WorkingMemory (Some C))) = C
      \<and> length (slots (run calls (new_WorkingMemory (Some C)))) \<le> C)
   \<and> length (slots (run calls (new_WorkingMemory None))) \<le> 7
   \<and> (length (slots wm) < maxSlots wm \<longrightarrow>
        slots (snd (add clk r c cat p ts wm)) = slots wm @ [fst (add clk r c cat p ts wm)])
   \<and> (1 \<le> maxSlots wm \<and> maxSlots wm \<le> length (slots wm) \<longrightarrow>
        (\<exists>ev\<in>set (slots wm).
           fst (evictLowestValue (\<lambda>i. clk (3 + i)) wm) = Some ev
           \<and> slots (snd (add clk r c cat p ts wm)) =
               filter (\<lambda>m. id_m m \<noteq> id_m ev) (slots wm) @ [fst (add clk r c cat p ts wm)])
        \<and> length (slots (snd (add clk r c cat p ts wm))) \<le> length (slots wm))
   \<and> (1 \<le> maxSlots wm \<and> maxSlots wm \<le> length (slots wm) \<and> distinct (map id_m (slots wm)) \<longrightarrow>
        (\<exists>i<length (slots wm).
           fst (evictLowestValue (\<lambda>i. clk (3 + i)) wm) = Some (slots wm ! i)
           \<and> slots (snd (add clk r c cat p ts wm)) =
               take i (slots wm) @ drop (Suc i) (slots wm) @ [fst (add clk r c cat p ts wm)])
        \<and> length (slots (snd (add clk r c cat p ts wm))) = length (slots wm))"
proof (intro conjI impI)
  assume "1 \<le> C"
  then show "maxSlots (run calls (new_WorkingMemory (Some C))) = C"
    using run_capacity [of "new_WorkingMemory (Some C)" calls]
    by (simp add: new_WorkingMemory_def)
next
  assume "1 \<le> C"
  then show "length (slots (run calls (new_WorkingMemory (Some C)))) \<le> C"
    using run_capacity [of "new_WorkingMemory (Some C)" calls]
    by (simp add: new_WorkingMemory_def)
next
  show "length (slots (run calls (new_WorkingMemory None))) \<le> 7"
    using run_capacity [of "new_WorkingMemory None" calls]
    by (simp add: new_WorkingMemory_def)
next
  assume "length (slots wm) < maxSlots wm"
  then show "slots (snd (add clk r c cat p ts wm)) = slots wm @ [fst (add clk r c cat p ts wm)]"
    by (simp add: add_result)
next
  assume full: "1 \<le> maxSlots wm \<and> maxSlots wm \<le> length (slots wm)"
  then have ne: "slots wm \<noteq> []" by auto
  from evicted_in_slots [OF ne, of "\<lambda>i. clk (3 + i)"] full
  show "\<exists>ev\<in>set (slots wm).
           fst (evictLowestValue (\<lambda>i. clk (3 + i)) wm) = Some ev
           \<and> slots (snd (add clk r c cat p ts wm)) =
               filter (\<lambda>m. id_m m \<noteq> id_m ev) (slots wm) @ [fst (add clk r c cat p ts wm)]"
    by (auto simp: add_result)
  from evict_length_less [OF ne, of "\<lambda>i. clk (3 + i)"] full
  show "length (slots (snd (add clk r c cat p ts wm))) \<le> length (slots wm)"
    by (simp add: add_result)
next
  assume full: "1 \<le> maxSlots wm \<and> maxSlots wm \<le> length (slots wm) \<and> distinct (map id_m (slots wm))"
  then have ne: "slots wm \<noteq> []" and dist: "distinct (map id_m (slots wm))" by auto
  from evicted_in_slots [OF ne, of "\<lambda>i. clk (3 + i)"] obtain ev where "ev \<in> set (slots wm)"
    and res: "evictLowestValue (\<lambda>i. clk (3 + i)) wm =
           (Some ev, wm\<lparr>slots := filter (\<lambda>m. id_m m \<noteq> id_m ev) (slots wm)\<rparr>)"
    by blast
  then obtain i where i: "i < length (slots wm)" and evi: "ev = slots wm ! i"
    by (auto simp: in_set_conv_nth)
  from filter_distinct_nth [OF dist i] res evi full
  have eq: "slots (snd (add clk r c cat p ts wm)) =
             take i (slots wm) @ drop (Suc i) (slots wm) @ [fst (add clk r c cat p ts wm)]"
    by (simp add: add_result)
  moreover from res evi have "fst (evictLowestValue (\<lambda>i. clk (3 + i)) wm) = Some (slots wm ! i)"
    by simp
  ultimately show "\<exists>i<length (slots wm).
           fst (evictLowestValue (\<lambda>i. clk (3 + i)) wm) = Some (slots wm ! i)
           \<and> slots (snd (add clk r c cat p ts wm)) =
               take i (slots wm) @ drop (Suc i) (slots wm) @ [fst (add clk r c cat p ts wm)]"
    using i by blast
  from eq i show "length (slots (snd (add clk r c cat p ts wm))) = length (slots wm)"
    by simp
qed

theorem add_capacity_witness:
  "length (slots (run [Add ex_clk ''0.4fzyo82mvyr'' ''first'' ''task'' None None,
                       Add ex_clk ''0.k3c1p82mvyr'' ''second'' ''task'' None None,
                       Add ex_clk ''0.20vu1s4qpxz'' ''third'' ''task'' None None]
                    (new_WorkingMemory (Some 2)))) \<le> 2
   \<and> length (slots (snd (add ex_clk ''0.20vu1s4qpxz'' ''third'' ''task'' None None ex_store))) = 2
   \<and> slots (snd (add ex_clk ''0.20vu1s4qpxz'' ''third'' ''task'' None None (new_WorkingMemory (Some 2))))
       = [fst (add ex_clk ''0.20vu1s4qpxz'' ''third'' ''task'' None None (new_WorkingMemory (Some 2)))]"
proof -
  note cap = add_capacity [where C = 2 and clk = ex_clk and r = "''0.20vu1s4qpxz''"
      and c = "''third''" and cat = "''task''" and p = None and ts = None]
  have full: "1 \<le> maxSlots ex_store \<and> maxSlots ex_store \<le> length (slots ex_store)
              \<and> distinct (map id_m (slots ex_store))"
    by (simp add: ex_store_slots ex_ids)
  have below: "length (slots (new_WorkingMemory (Some 2))) < maxSlots (new_WorkingMemory (Some 2))"
    by (simp add: new_WorkingMemory_def)
  have "(1::nat) \<le> 2" by simp
  with cap [where wm = ex_store] have a: "length (slots (run [Add ex_clk ''0.4fzyo82mvyr'' ''first'' ''task'' None None,
                       Add ex_clk ''0.k3c1p82mvyr'' ''second'' ''task'' None None,
                       Add ex_clk ''0.20vu1s4qpxz'' ''third'' ''task'' None None]
                    (new_WorkingMemory (Some 2)))) \<le> 2"
    by blast
  from cap [where wm = ex_store and calls = "[]"] full
  have b: "length (slots (snd (add ex_clk ''0.20vu1s4qpxz'' ''third'' ''task'' None None ex_store)))
           = length (slots ex_store)"
    by blast
  from cap [where wm = "new_WorkingMemory (Some 2)" and calls = "[]"] below
  have c: "slots (snd (add ex_clk ''0.20vu1s4qpxz'' ''third'' ''task'' None None (new_WorkingMemory (Some 2))))
       = slots (new_WorkingMemory (Some 2)) @ [fst (add ex_clk ''0.20vu1s4qpxz'' ''third'' ''task'' None None (new_WorkingMemory (Some 2)))]"
    by blast
  from a b c show ?thesis
    by (simp add: ex_store_slots new_WorkingMemory_def)
qed

text \<open>
  Where the claim fails as worded: a third insert into the store of capacity 2 whose two
  entries carry the same id evicts both of them, and the store is left with the new
  entry alone.
\<close>

theorem add_evicts_two:
  "length (slots ex_dup_store) = 2 \<and> maxSlots ex_dup_store = 2
   \<and> slots (snd (add ex_clk ''0.20vu1s4qpxz'' ''third'' ''task'' None None ex_dup_store))
       = [fst (add ex_clk ''0.20vu1s4qpxz'' ''third'' ''task'' None None ex_dup_store)]"
proof -
  have ne: "slots ex_dup_store \<noteq> []"
    using ex_dup_slots(1) by auto
  from evicted_in_slots [OF ne, of "\<lambda>i. ex_clk (3 + i)"] obtain ev
    where ev: "ev \<in> set (slots ex_dup_store)"
    and res: "evictLowestValue (\<lambda>i. ex_clk (3 + i)) ex_dup_store =
           (Some ev, ex_dup_store\<lparr>slots := filter (\<lambda>m. id_m m \<noteq> id_m ev) (slots ex_dup_store)\<rparr>)"
    by blast
  have "set (map id_m (slots ex_dup_store)) = {''wm_1000_82mvyr''}"
    by (simp add: ex_dup_slots(3))
  then have "\<forall>m\<in>set (slots ex_dup_store). id_m m = ''wm_1000_82mvyr''"
    by auto
  with ev have "filter (\<lambda>m. id_m m \<noteq> id_m ev) (slots ex_dup_store) = []"
    by (simp add: filter_empty_conv)
  with res show ?thesis
    by (simp add: add_result ex_dup_slots(1,2))
qed

section \<open>Uniqueness of ids\<close>
















lemma set_insert_keys_Cons: "set (insert_keys cs) \<subseteq> set (insert_keys (c # cs))"
  by (cases c) auto






section \<open>The eviction scenario\<close>

lemma add_entry_independent:
  "fst (add clk r c cat p ts wm) = fst (add clk r c cat p ts wm')"
  by (simp add: add_def Let_def)

lemma add_category:
  "category (metaTags (fst (add clk r c cat p ts wm))) = cat"
  by (simp add: add_def Let_def)

lemma score_decision_7:
  "spec_score now (fst (add clk r c ''decision'' (Some 7) ts wm)) > 0.5"
  by (simp add: spec_score_def spec_weight_def add_def Let_def)

lemma score_result_1:
  assumes "clk 2 \<le> now"
  shows "spec_score now (fst (add clk r c ''result'' (Some 1) ts wm)) < 0.5"
proof -
  define e where "e = exp (- real_of_int (now - clk 2) / 3600000)"
  have "e \<le> 1"
    using assms by (simp add: e_def)
  moreover have "spec_score now (fst (add clk r c ''result'' (Some 1) ts wm))
                 = 0.3 * e + 0.3 * (1 / 7) + 0.2 * 0.4"
    by (simp add: spec_score_def spec_weight_def add_def Let_def e_def)
  ultimately show ?thesis
    by linarith
qed

text \<open>
  The scenario of three inserts into a store of capacity 2, for any clock readings and
  random strings: what the third insert evicts and what is left.
\<close>

lemma scenario_outcome:
  fixes clkA clkB clkC :: "nat \<Rightarrow> int"
    and rA rB rC cA cB cC :: string
    and tsA tsB tsC :: "string list option"
  defines "wm0 \<equiv> new_WorkingMemory (Some 2)"
  defines "A \<equiv> fst (add clkA rA cA ''decision'' (Some 7) tsA wm0)"
  defines "B \<equiv> fst (add clkB rB cB ''result'' (Some 1) tsB wm0)"
  defines "C \<equiv> fst (add clkC rC cC ''task'' (Some 5) tsC wm0)"
  defines "wm2 \<equiv> run [Add clkA rA cA ''decision'' (Some 7) tsA,
                        Add clkB rB cB ''result'' (Some 1) tsB] wm0"
  defines "ev \<equiv> (if spec_score (clkC 3) A \<le> spec_score (clkC 4) B then A else B)"
  shows "slots wm2 = [A, B]"
    and "fst (evictLowestValue (\<lambda>i. clkC (3 + i)) wm2) = Some ev"
    and "slots (run [Add clkA rA cA ''decision'' (Some 7) tsA,
                     Add clkB rB cB ''result'' (Some 1) tsB,
                     Add clkC rC cC ''task'' (Some 5) tsC] wm0)
         = filter (\<lambda>m. id_m m \<noteq> id_m ev) [A, B] @ [C]"
proof -
  define wm1 where "wm1 = snd (add clkA rA cA ''decision'' (Some 7) tsA wm0)"
  have wm0: "maxSlots wm0 = 2" "slots wm0 = []"
    by (simp_all add: wm0_def new_WorkingMemory_def)
  have wm1: "slots wm1 = [A]" "maxSlots wm1 = 2"
    by (simp_all add: wm1_def add_result wm0 A_def)
  have B': "fst (add clkB rB cB ''result'' (Some 1) tsB wm1) = B"
    unfolding B_def by (rule add_entry_independent)
  have "wm2 = snd (add clkB rB cB ''result'' (Some 1) tsB wm1)"
    by (simp add: wm2_def wm1_def)
  then have wm2: "slots wm2 = [A, B]" "maxSlots wm2 = 2"
    by (simp_all add: add_result wm1 B')
  have sA: "calculateValue (clkC 3) A = Num (spec_score (clkC 3) A)"
    by (rule calculateValue_spec_score)
      (simp add: A_def add_category Object_prototype_names_def)
  have sB: "calculateValue (clkC 4) B = Num (spec_score (clkC 4) B)"
    by (rule calculateValue_spec_score)
      (simp add: B_def add_category Object_prototype_names_def)
  have scored: "scored_slots_by calculateValue (\<lambda>i. clkC (3 + i)) [A, B]
                 = [(A, Num (spec_score (clkC 3) A)), (B, Num (spec_score (clkC 4) B))]"
    by (simp add: scored_slots_by_def enumerate_simps sA sB)
  have cmp: "js_le (SortCompare by_score (A, Num (spec_score (clkC 3) A))
                      (B, Num (spec_score (clkC 4) B))) (Num 0)
             = (spec_score (clkC 3) A \<le> spec_score (clkC 4) B)"
    by (simp add: SortCompare_def by_score_def js_minus_def js_le_def)
  have hd_sorted: "fst (hd (js_sort by_score
                     [(A, Num (spec_score (clkC 3) A)), (B, Num (spec_score (clkC 4) B))])) = ev"
    by (simp add: js_sort_def cmp ev_def)
  have evict: "evictLowestValue (\<lambda>i. clkC (3 + i)) wm2 =
            (Some ev, wm2\<lparr>slots := filter (\<lambda>m. id_m m \<noteq> id_m ev) [A, B]\<rparr>)"
    by (simp add: evictLowestValue_def evictLowestValue_by_def Let_def wm2 scored hd_sorted
        del: filter.simps)
  have C': "fst (add clkC rC cC ''task'' (Some 5) tsC wm2) = C"
    unfolding C_def by (rule add_entry_independent)
  have "run [Add clkA rA cA ''decision'' (Some 7) tsA,
             Add clkB rB cB ''result'' (Some 1) tsB,
             Add clkC rC cC ''task'' (Some 5) tsC] wm0
        = snd (add clkC rC cC ''task'' (Some 5) tsC wm2)"
    by (simp add: wm2_def)
  then show "slots (run [Add clkA rA cA ''decision'' (Some 7) tsA,
                     Add clkB rB cB ''result'' (Some 1) tsB,
                     Add clkC rC cC ''task'' (Some 5) tsC] wm0)
         = filter (\<lambda>m. id_m m \<noteq> id_m ev) [A, B] @ [C]"
    by (simp add: add_result wm2 evict C' del: filter.simps)
  from wm2 show "slots wm2 = [A, B]" by simp
  from evict show "fst (evictLowestValue (\<lambda>i. clkC (3 + i)) wm2) = Some ev" by simp
qed

text \<open>
  C9. In a store of capacity 2, inserting A (decision, priority 7), then B (result,
  priority 1), then C (task, priority 5), with no access in between, evicts B at the
  third insert and leaves exactly A and C, size 2, provided A and B were given
  different ids and the clock, when B is scored at the third insert, does not read
  earlier than at B's insertion.
\<close>

theorem eviction_scenario:
  assumes ids: "id_m (fst (add clkA rA cA ''decision'' (Some 7) tsA (new_WorkingMemory (Some 2))))
                \<noteq> id_m (fst (add clkB rB cB ''result'' (Some 1) tsB (new_WorkingMemory (Some 2))))"
    and clock: "clkB 2 \<le> clkC 4"
  shows "slots (run [Add clkA rA cA ''decision'' (Some 7) tsA,
                     Add clkB rB cB ''result'' (Some 1) tsB,
                     Add clkC rC cC ''task'' (Some 5) tsC]
                  (new_WorkingMemory (Some 2)))
         = [fst (add clkA rA cA ''decision'' (Some 7) tsA (new_WorkingMemory (Some 2))),
            fst (add clkC rC cC ''task'' (Some 5) tsC (new_WorkingMemory (Some 2)))]
         \<and> fst (evictLowestValue (\<lambda>i. clkC (3 + i))
                  (run [Add clkA rA cA ''decision'' (Some 7) tsA,
                        Add clkB rB cB ''result'' (Some 1) tsB]
                     (new_WorkingMemory (Some 2))))
           = Some (fst (add clkB rB cB ''result'' (Some 1) tsB (new_WorkingMemory (Some 2))))
         \<and> length (slots (run [Add clkA rA cA ''decision'' (Some 7) tsA,
                     Add clkB rB cB ''result'' (Some 1) tsB,
                     Add clkC rC cC ''task'' (Some 5) tsC]
                  (new_WorkingMemory (Some 2)))) = 2"
proof -
  have less: "\<not> spec_score (clkC 3) (fst (add clkA rA cA ''decision'' (Some 7) tsA (new_WorkingMemory (Some 2))))
           \<le> spec_score (clkC 4) (fst (add clkB rB cB ''result'' (Some 1) tsB (new_WorkingMemory (Some 2))))"
    using score_decision_7 [of "clkC 3" clkA rA cA tsA "new_WorkingMemory (Some 2)"]
      score_result_1 [where clk = clkB and now = "clkC 4" and r = rB and c = cB and ts = tsB
        and wm = "new_WorkingMemory (Some 2)"] clock
    by simp
  show ?thesis
    unfolding scenario_outcome(2,3) using ids less by simp
qed

lemma ex_back_scores:
  "spec_score (ex_clk_back 3) (fst (add ex_clk ''0.4fzyo82mvyr'' ''A'' ''decision'' (Some 7) None (new_WorkingMemory (Some 2))))
   \<le> spec_score (ex_clk_back 4) (fst (add ex_clk_late ''0.k3c1p97qd0a'' ''B'' ''result'' (Some 1) None (new_WorkingMemory (Some 2))))"
proof -
  have a: "spec_score (ex_clk_back 3) (fst (add ex_clk ''0.4fzyo82mvyr'' ''A'' ''decision'' (Some 7) None (new_WorkingMemory (Some 2)))) = 0.8"
    by (simp add: spec_score_def spec_weight_def add_def Let_def ex_clk_def ex_clk_back_def)
  have b: "spec_score (ex_clk_back 4) (fst (add ex_clk_late ''0.k3c1p97qd0a'' ''B'' ''result'' (Some 1) None (new_WorkingMemory (Some 2))))
           = 0.3 * exp (35999 / 3600) + 0.3 * (1 / 7) + 0.2 * 0.4"
    by (simp add: spec_score_def spec_weight_def add_def Let_def ex_clk_late_def ex_clk_back_def)
  have "1 + 35999 / 3600 \<le> exp (35999 / 3600 :: real)"
    by (rule exp_ge_add_one_self)
  with a b show ?thesis by linarith
qed

text \<open>
  Where the claim fails as worded: when A and B carry the same id the third insert
  evicts both and leaves C alone; when the clock is set back ten hours before the third
  insert, B scores higher than A and A is evicted.
\<close>

theorem eviction_scenario_fails:
  "slots (run [Add ex_clk ''0.4fzyo82mvyr'' ''A'' ''decision'' (Some 7) None,
               Add ex_clk ''0.k3c1p82mvyr'' ''B'' ''result'' (Some 1) None,
               Add ex_clk ''0.20vu1s4qpxz'' ''C'' ''task'' (Some 5) None]
            (new_WorkingMemory (Some 2)))
   = [fst (add ex_clk ''0.20vu1s4qpxz'' ''C'' ''task'' (Some 5) None (new_WorkingMemory (Some 2)))]
   \<and> slots (run [Add ex_clk ''0.4fzyo82mvyr'' ''A'' ''decision'' (Some 7) None,
               Add ex_clk_late ''0.k3c1p97qd0a'' ''B'' ''result'' (Some 1) None,
               Add ex_clk_back ''0.20vu1s4qpxz'' ''C'' ''task'' (Some 5) None]
            (new_WorkingMemory (Some 2)))
   = [fst (add ex_clk_late ''0.k3c1p97qd0a'' ''B'' ''result'' (Some 1) None (new_WorkingMemory (Some 2))),
      fst (add ex_clk_back ''0.20vu1s4qpxz'' ''C'' ''task'' (Some 5) None (new_WorkingMemory (Some 2)))]"
proof -
  have same: "id_m (fst (add ex_clk ''0.4fzyo82mvyr'' ''A'' ''decision'' (Some 7) None (new_WorkingMemory (Some 2))))
              = id_m (fst (add ex_clk ''0.k3c1p82mvyr'' ''B'' ''result'' (Some 1) None (new_WorkingMemory (Some 2))))"
    by (simp add: add_def Let_def)
  have first: "slots (run [Add ex_clk ''0.4fzyo82mvyr'' ''A'' ''decision'' (Some 7) None,
               Add ex_clk ''0.k3c1p82mvyr'' ''B'' ''result'' (Some 1) None,
               Add ex_clk ''0.20vu1s4qpxz'' ''C'' ''task'' (Some 5) None]
            (new_WorkingMemory (Some 2)))
      = [fst (add ex_clk ''0.20vu1s4qpxz'' ''C'' ''task'' (Some 5) None (new_WorkingMemory (Some 2)))]"
    unfolding scenario_outcome(3) using same by simp
  have differ: "id_m (fst (add ex_clk ''0.4fzyo82mvyr'' ''A'' ''decision'' (Some 7) None (new_WorkingMemory (Some 2))))
              \<noteq> id_m (fst (add ex_clk_late ''0.k3c1p97qd0a'' ''B'' ''result'' (Some 1) None (new_WorkingMemory (Some 2))))"
    by (simp add: add_def Let_def ex_clk_def ex_clk_late_def show_int_def show_nat.simps digit_char_def)
  have second: "slots (run [Add ex_clk ''0.4fzyo82mvyr'' ''A'' ''decision'' (Some 7) None,
               Add ex_clk_late ''0.k3c1p97qd0a'' ''B'' ''result'' (Some 1) None,
               Add ex_clk_back ''0.20vu1s4qpxz'' ''C'' ''task'' (Some 5) None]
            (new_WorkingMemory (Some 2)))
   = [fst (add ex_clk_late ''0.k3c1p97qd0a'' ''B'' ''result'' (Some 1) None (new_WorkingMemory (Some 2))),
      fst (add ex_clk_back ''0.20vu1s4qpxz'' ''C'' ''task'' (Some 5) None (new_WorkingMemory (Some 2)))]"
    unfolding scenario_outcome(3) using differ ex_back_scores by simp
  from first second show ?thesis by simp
qed

theorem eviction_scenario_witness:
  "slots (run [Add ex_clkA ''0.4fzyo82mvyr'' ''A'' ''decision'' (Some 7) None,
               Add ex_clkB ''0.k3c1p97qd0a'' ''B'' ''result'' (Some 1) None,
               Add ex_clkC ''0.20vu1s4qpxz'' ''C'' ''task'' (Some 5) None]
            (new_WorkingMemory (Some 2)))
   = [fst (add ex_clkA ''0.4fzyo82mvyr'' ''A'' ''decision'' (Some 7) None (new_WorkingMemory (Some 2))),
      fst (add ex_clkC ''0.20vu1s4qpxz'' ''C'' ''task'' (Some 5) None (new_WorkingMemory (Some 2)))]"
proof -
  have ids: "id_m (fst (add ex_clkA ''0.4fzyo82mvyr'' ''A'' ''decision'' (Some 7) None (new_WorkingMemory (Some 2))))
                \<noteq> id_m (fst (add ex_clkB ''0.k3c1p97qd0a'' ''B'' ''result'' (Some 1) None (new_WorkingMemory (Some 2))))"
    by (simp add: add_def Let_def ex_clkA_def ex_clkB_def show_int_def show_nat.simps digit_char_def)
  have clock: "ex_clkB 2 \<le> ex_clkC 4"
    by (simp add: ex_clkB_def ex_clkC_def)
  from eviction_scenario [where clkA = ex_clkA and clkB = ex_clkB and clkC = ex_clkC
      and rA = "''0.4fzyo82mvyr''" and rB = "''0.k3c1p97qd0a''" and rC = "''0.20vu1s4qpxz''"
      and cA = "''A''" and cB = "''B''" and cC = "''C''"
      and tsA = None and tsB = None and tsC = None] ids clock
  show ?thesis by blast
qed

section \<open>Clearing\<close>

text \<open>
  C5. Clearing is an action of the tool handler, not a method of the store class. For
  every prior content it removes all live entries, leaving size 0 and an empty listing
  (capacity unchanged), and it answers with the text \<open>Cleared n memories from working
  memory.\<close>, n the number of entries removed.
\<close>

theorem clear_empties:
  "slots (snd (elvis_memory_clear wm)) = []
   \<and> length (slots (snd (elvis_memory_clear wm))) = 0
   \<and> list_wm clk verbose (snd (elvis_memory_clear wm)) = []
   \<and> maxSlots (snd (elvis_memory_clear wm)) = maxSlots wm
   \<and> fst (elvis_memory_clear wm) =
       TextContent (''Cleared '' @ show_nat (length (slots wm)) @ '' memories from working memory.'')"
  by (simp add: elvis_memory_clear_def list_wm_def scored_slots_def scored_slots_by_def Let_def)

text \<open>
  Where the claim fails as worded: the class defines no method \<open>clear\<close>, and what the
  handler returns for a store of two entries is a text, not the count 2.
\<close>

theorem clear_returns_text:
  "''clear'' \<notin> set WorkingMemory_methods
   \<and> fst (elvis_memory_clear ex_store) = TextContent ''Cleared 2 memories from working memory.''
   \<and> fst (elvis_memory_clear ex_store) \<noteq> Count (length (slots ex_store))"
  by (simp add: WorkingMemory_methods_def elvis_memory_clear_def Let_def ex_store_slots
      show_nat.simps digit_char_def)

section \<open>Properties of access\<close>

lemma find_first_index:
  "k < length ms \<Longrightarrow> id_m (ms ! k) = i \<Longrightarrow> \<forall>j<k. id_m (ms ! j) \<noteq> i \<Longrightarrow>
     find (\<lambda>m. id_m m = i) ms = Some (ms ! k) \<and> touch_first now i ms = ms[k := touch now (ms ! k)]"
proof (induction ms arbitrary: k)
  case Nil
  then show ?case by simp
next
  case (Cons m ms)
  show ?case
  proof (cases k)
    case 0
    with Cons.prems show ?thesis by simp
  next
    case (Suc k')
    from Cons.prems Suc have head: "id_m m \<noteq> i" by auto
    from Cons.prems Suc have "k' < length ms" "id_m (ms ! k') = i" "\<forall>j<k'. id_m (ms ! j) \<noteq> i"
      by auto
    from Cons.IH [OF this] head Suc show ?thesis by simp
  qed
qed

text \<open>
  C4. \<open>access\<close> on an id that no live entry carries changes nothing and returns the
  absent result. On an id that a live entry carries, the first entry with that id (the
  only one when ids are unique) has its accessCount raised by exactly 1 and its
  lastAccessed set to the call time; every other entry and every other field is as
  before, and the updated entry is returned.
\<close>

theorem access_accounting:
  "(i \<notin> id_m ` set (slots wm) \<longrightarrow> access now i wm = (None, wm))
   \<and> (\<forall>k<length (slots wm).
         id_m (slots wm ! k) = i \<and> (\<forall>j<k. id_m (slots wm ! j) \<noteq> i) \<longrightarrow>
         access now i wm =
           (Some ((slots wm ! k)\<lparr>metadata := (metadata (slots wm ! k))
                    \<lparr>lastAccessed := now,
                     accessCount := accessCount (metadata (slots wm ! k)) + 1\<rparr>\<rparr>),
            wm\<lparr>slots := (slots wm)[k := (slots wm ! k)\<lparr>metadata := (metadata (slots wm ! k))
                    \<lparr>lastAccessed := now,
                     accessCount := accessCount (metadata (slots wm ! k)) + 1\<rparr>\<rparr>]\<rparr>))"
proof (intro conjI impI allI)
  assume "i \<notin> id_m ` set (slots wm)"
  then have "find (\<lambda>m. id_m m = i) (slots wm) = None"
    by (auto simp: find_None_iff)
  then show "access now i wm = (None, wm)"
    by (simp add: access_def)
next
  fix k
  assume "k < length (slots wm)"
    and "id_m (slots wm ! k) = i \<and> (\<forall>j<k. id_m (slots wm ! j) \<noteq> i)"
  then show "access now i wm =
           (Some ((slots wm ! k)\<lparr>metadata := (metadata (slots wm ! k))
                    \<lparr>lastAccessed := now,
                     accessCount := accessCount (metadata (slots wm ! k)) + 1\<rparr>\<rparr>),
            wm\<lparr>slots := (slots wm)[k := (slots wm ! k)\<lparr>metadata := (metadata (slots wm ! k))
                    \<lparr>lastAccessed := now,
                     accessCount := accessCount (metadata (slots wm ! k)) + 1\<rparr>\<rparr>]\<rparr>)"
    using find_first_index [of k "slots wm" i now]
    by (simp add: access_def touch_def)
qed

theorem access_accounting_witness:
  "access 5000 ''wm_1000_97qd0a'' ex_store =
     (Some (ex_B\<lparr>metadata := (metadata ex_B)\<lparr>lastAccessed := 5000, accessCount := 1\<rparr>\<rparr>),
      ex_store\<lparr>slots := [ex_A, ex_B\<lparr>metadata := (metadata ex_B)\<lparr>lastAccessed := 5000, accessCount := 1\<rparr>\<rparr>]\<rparr>)
   \<and> access 5000 ''wm_0_none'' ex_store = (None, ex_store)"
proof -
  have acc: "accessCount (metadata ex_B) = 0"
    by (simp add: ex_B_def add_def Let_def)
  have hit: "id_m (slots ex_store ! 1) = ''wm_1000_97qd0a''
             \<and> (\<forall>j<1. id_m (slots ex_store ! j) \<noteq> ''wm_1000_97qd0a'')"
    by (simp add: ex_store_slots ex_ids)
  have miss: "''wm_0_none'' \<notin> id_m ` set (slots ex_store)"
    by (simp add: ex_store_slots ex_ids)
  have len: "(1::nat) < length (slots ex_store)"
    by (simp add: ex_store_slots)
  from access_accounting [of "''wm_0_none''" ex_store 5000] miss
  have a: "access 5000 ''wm_0_none'' ex_store = (None, ex_store)" by blast
  from access_accounting [of "''wm_1000_97qd0a''" ex_store 5000] len hit
  have b: "access 5000 ''wm_1000_97qd0a'' ex_store =
           (Some ((slots ex_store ! 1)\<lparr>metadata := (metadata (slots ex_store ! 1))
                    \<lparr>lastAccessed := 5000,
                     accessCount := accessCount (metadata (slots ex_store ! 1)) + 1\<rparr>\<rparr>),
            ex_store\<lparr>slots := (slots ex_store)[1 := (slots ex_store ! 1)\<lparr>metadata := (metadata (slots ex_store ! 1))
                    \<lparr>lastAccessed := 5000,
                     accessCount := accessCount (metadata (slots ex_store ! 1)) + 1\<rparr>\<rparr>]\<rparr>)"
    by blast
  from a b show ?thesis
    by (simp add: ex_store_slots acc)
qed

end
